theory Spec2Isabelle
  imports Main "HOL-Library.Word"
begin

unbundle bit_operations_syntax

section \<open>Data of \<^verbatim>\<open>Crypto.ts\<close>\<close>

text \<open>
  A \<^verbatim>\<open>Uint8Array\<close> is read as the list of its bytes, a JavaScript string as the list
  of its UTF-16 code units (what \<^verbatim>\<open>length\<close> and a regular expression count).
\<close>

type_synonym byte = "8 word"
type_synonym bytes = "byte list"
type_synonym code_unit = "16 word"
type_synonym js_string = "code_unit list"

definition js :: "string \<Rightarrow> js_string" where
  "js s = map of_char s"

text \<open>What a JavaScript function throws: \<^verbatim>\<open>new Error(msg)\<close> or a \<^verbatim>\<open>RangeError\<close>.\<close>

datatype js_error = Error string | RangeError string

text \<open>
  The only tagged error the module declares is \<^verbatim>\<open>InvalidMnemonicError\<close>
  (\<^verbatim>\<open>_tag: "InvalidMnemonicError"\<close>), the error type of \<^verbatim>\<open>Bip39.parse\<close>.
\<close>

datatype tagged_error = InvalidMnemonicError

text \<open>
  The outcome of running an \<^verbatim>\<open>Effect.Effect<A, E>\<close>: success, a failure of the declared
  error type \<^verbatim>\<open>E\<close>, or a defect (an exception that escaped a thunk).
\<close>

datatype 'a exit = is_Success: Success 'a | is_Failure: Failure tagged_error | is_Die: Die js_error

text \<open>
  The secure random source: an unbounded supply of bytes and the number already handed
  out. \<^verbatim>\<open>randomBytes(n)\<close> hands out the next \<^verbatim>\<open>n\<close>.
\<close>

record world =
  entropy :: "nat \<Rightarrow> byte"
  consumed :: nat

type_synonym 'a effect = "world \<Rightarrow> 'a exit \<times> world"

definition randomBytes :: "nat \<Rightarrow> world \<Rightarrow> bytes \<times> world" where
  "randomBytes n w =
     (map (entropy w) [consumed w ..< consumed w + n], w\<lparr>consumed := consumed w + n\<rparr>)"

text \<open>
  \<^verbatim>\<open>Effect.sync(thunk)\<close> runs the thunk; an exception thrown by the thunk is a defect,
  not a failure of the error type.
\<close>

definition sync :: "(world \<Rightarrow> (js_error + 'a) \<times> world) \<Rightarrow> 'a effect" where
  "sync thunk w =
     (case thunk w of
        (Inl err, w') \<Rightarrow> (Die err, w')
      | (Inr a, w') \<Rightarrow> (Success a, w'))"

subsection \<open>Typed arrays\<close>

definition Uint8Array_new :: "nat \<Rightarrow> bytes" where
  "Uint8Array_new n = replicate n 0"

text \<open>\<^verbatim>\<open>a[i] = v\<close>: a write outside the array is ignored.\<close>

definition store_index :: "bytes \<Rightarrow> nat \<Rightarrow> byte \<Rightarrow> bytes" where
  "store_index a i v = (if i < length a then a[i := v] else a)"

text \<open>\<^verbatim>\<open>a.set(src, offset)\<close>: throws a \<^verbatim>\<open>RangeError\<close> when the source does not fit.\<close>

definition Uint8Array_set :: "bytes \<Rightarrow> bytes \<Rightarrow> nat \<Rightarrow> js_error + bytes" where
  "Uint8Array_set a src offset =
     (if offset + length src > length a then Inl (RangeError ''offset is out of bounds'')
      else Inr (take offset a @ src @ drop (offset + length src) a))"

text \<open>
  \<^verbatim>\<open>a.slice(start, end)\<close> and \<^verbatim>\<open>a.subarray(begin, end)\<close> with indices that are not
  negative: both are clamped to the length. A slice is a copy, a subarray a view on the
  same buffer; their bytes are the same.
\<close>

definition slice :: "bytes \<Rightarrow> nat \<Rightarrow> nat \<Rightarrow> bytes" where
  "slice a start end =
     (let len = length a; k = min start len; final = min end len
      in take (final - k) (drop k a))"

definition subarray :: "bytes \<Rightarrow> nat \<Rightarrow> nat \<Rightarrow> bytes" where
  "subarray a begin end =
     (let len = length a; b = min begin len; final = min end len
      in take (final - b) (drop b a))"

text \<open>\<^verbatim>\<open>a.subarray(begin)\<close>: the end defaults to the length.\<close>

definition subarray_from :: "bytes \<Rightarrow> nat \<Rightarrow> bytes" where
  "subarray_from a begin = subarray a begin (length a)"

text \<open>\<^verbatim>\<open>concatBytes(a, b)\<close> of \<^verbatim>\<open>@noble/ciphers/utils\<close>: a new array, \<^verbatim>\<open>a\<close> then \<^verbatim>\<open>b\<close>.\<close>

definition concatBytes :: "bytes \<Rightarrow> bytes \<Rightarrow> bytes" where
  "concatBytes a b = a @ b"

subsection \<open>The imported primitives\<close>

text \<open>
  \<^verbatim>\<open>Crypto.ts\<close> imports its hash, cipher, encoder and identifier primitives from
  \<^verbatim>\<open>@noble/hashes\<close>, \<^verbatim>\<open>@noble/ciphers\<close>, the platform and \<^verbatim>\<open>nanoid\<close>. Their code is
  not part of the module, so they are parameters of the model:
  \<^item> \<^verbatim>\<open>hmac(sha512, key, message)\<close>, whose key and message are a string or a byte array
    (\<^verbatim>\<open>Input = Uint8Array | string\<close>);
  \<^item> \<^verbatim>\<open>new TextEncoder().encode(s)\<close>;
  \<^item> \<^verbatim>\<open>secretbox(key, nonce).seal(plaintext)\<close> and \<^verbatim>\<open>secretbox(key, nonce).open(box)\<close>,
    which throw on arguments they reject;
  \<^item> \<^verbatim>\<open>customAlphabet(alphabet, size)()\<close>, which draws from the random source.
\<close>

datatype hmac_input = Str js_string | Bytes bytes

record primitives =
  hmac_sha512 :: "hmac_input \<Rightarrow> hmac_input \<Rightarrow> bytes"
  TextEncoder_encode :: "js_string \<Rightarrow> bytes"
  secretbox_seal :: "bytes \<Rightarrow> bytes \<Rightarrow> bytes \<Rightarrow> js_error + bytes"
  secretbox_open :: "bytes \<Rightarrow> bytes \<Rightarrow> bytes \<Rightarrow> js_error + bytes"
  customAlphabet :: "js_string \<Rightarrow> nat \<Rightarrow> world \<Rightarrow> js_string \<times> world"

section \<open>SLIP-21 derivation\<close>

text \<open>
  \<^verbatim>\<open>
  let m = hmac(sha512, "Symmetric key seed", seed);
  for (let i = 0; i < path.length; i++) {
    const p = new TextEncoder().encode(path[i]);
    const e = new Uint8Array(p.byteLength + 1);
    e[0] = 0;
    e.set(p, 1);
    m = hmac(sha512, m.slice(0, 32), e);
  }
  return m.slice(32, 64);
  \<close>
\<close>

function slip21_loop :: "primitives \<Rightarrow> js_string list \<Rightarrow> nat \<Rightarrow> bytes \<Rightarrow> js_error + bytes" where
  "slip21_loop L path i m =
     (if i < length path then
        (let p = TextEncoder_encode L (path ! i);
             e0 = Uint8Array_new (length p + 1);
             e1 = store_index e0 0 0
         in case Uint8Array_set e1 p 1 of
              Inl err \<Rightarrow> Inl err
            | Inr e \<Rightarrow> slip21_loop L path (i + 1) (hmac_sha512 L (Bytes (slice m 0 32)) (Bytes e)))
      else Inr m)"
  by pat_completeness auto
termination
  by (relation "measure (\<lambda>(L, path, i, m). length path - i)") auto

declare slip21_loop.simps [simp del]

definition slip21_thunk :: "primitives \<Rightarrow> bytes \<Rightarrow> js_string list \<Rightarrow> js_error + bytes" where
  "slip21_thunk L seed path =
     (case slip21_loop L path 0 (hmac_sha512 L (Str (js ''Symmetric key seed'')) (Bytes seed)) of
        Inl err \<Rightarrow> Inl err
      | Inr m \<Rightarrow> Inr (slice m 32 64))"

definition slip21Derive :: "primitives \<Rightarrow> bytes \<Rightarrow> js_string list \<Rightarrow> bytes effect" where
  "slip21Derive L seed path = sync (\<lambda>w. (slip21_thunk L seed path, w))"

text \<open>
  The derivation in the words of the specification: the root expansion, one expansion
  per label in path order keyed by the lower half, and the upper half as the result.
\<close>

definition slip21_step :: "primitives \<Rightarrow> bytes \<Rightarrow> js_string \<Rightarrow> bytes" where
  "slip21_step L m label =
     hmac_sha512 L (Bytes (take 32 m)) (Bytes (0 # TextEncoder_encode L label))"

definition slip21_root :: "primitives \<Rightarrow> bytes \<Rightarrow> bytes" where
  "slip21_root L seed = hmac_sha512 L (Str (js ''Symmetric key seed'')) (Bytes seed)"

definition slip21_spec :: "primitives \<Rightarrow> bytes \<Rightarrow> js_string list \<Rightarrow> bytes" where
  "slip21_spec L seed path = take 32 (drop 32 (foldl (slip21_step L) (slip21_root L seed) path))"

text \<open>The documented size of an HMAC-SHA512 digest: 64 bytes.\<close>

definition hmac_digest_64 :: "primitives \<Rightarrow> bool" where
  "hmac_digest_64 L = (\<forall>k d. length (hmac_sha512 L k d) = 64)"

section \<open>SecretBox\<close>

text \<open>
  \<^verbatim>\<open>
  seal: (key, plaintext) =>
    Effect.sync(() => {
      const nonce = randomBytes(24);
      const ciphertext = secretbox(key, nonce).seal(plaintext);
      return concatBytes(nonce, ciphertext);
    }),
  open: (key, ciphertext) =>
    Effect.sync(() => {
      const nonce = ciphertext.subarray(0, 24);
      const ciphertextWithoutNonce = ciphertext.subarray(24);
      return secretbox(key, nonce).open(ciphertextWithoutNonce);
    }),
  \<close>
\<close>

definition SecretBoxLive_seal :: "primitives \<Rightarrow> bytes \<Rightarrow> bytes \<Rightarrow> bytes effect" where
  "SecretBoxLive_seal L key plaintext =
     sync (\<lambda>w.
       let (nonce, w') = randomBytes 24 w
       in (case secretbox_seal L key nonce plaintext of
             Inl err \<Rightarrow> Inl err
           | Inr ciphertext \<Rightarrow> Inr (concatBytes nonce ciphertext),
           w'))"

definition SecretBoxLive_open :: "primitives \<Rightarrow> bytes \<Rightarrow> bytes \<Rightarrow> bytes effect" where
  "SecretBoxLive_open L key ciphertext =
     sync (\<lambda>w.
       let nonce = subarray ciphertext 0 24;
           ciphertextWithoutNonce = subarray_from ciphertext 24
       in (secretbox_open L key nonce ciphertextWithoutNonce, w))"

text \<open>
  What the documentation of the secretbox primitive promises, for a 32-byte key and a
  24-byte nonce: sealing succeeds, its output is 16 bytes (the tag) longer than the
  plaintext, and opening that output under the same key and nonce gives the plaintext
  back.
\<close>

definition secretbox_correct :: "primitives \<Rightarrow> bool" where
  "secretbox_correct L =
     (\<forall>k n p. length k = 32 \<longrightarrow> length n = 24 \<longrightarrow>
        (\<exists>c. secretbox_seal L k n p = Inr c \<and> length c = length p + 16 \<and>
             secretbox_open L k n c = Inr p))"

text \<open>
  The primitive's own argument checks on opening: it throws for a nonce that is not 24
  bytes and for a box shorter than the 16-byte tag.
\<close>

definition secretbox_checks_lengths :: "primitives \<Rightarrow> bool" where
  "secretbox_checks_lengths L =
     (\<forall>k n c. length n \<noteq> 24 \<or> length c < 16 \<longrightarrow> isl (secretbox_open L k n c))"

section \<open>NodeId\<close>

text \<open>
  \<^verbatim>\<open>
  export const NodeId = S.string.pipe(S.pattern(/^[\w-]{16}$/), S.brand("NodeId"));
  const nanoidForNodeId = customAlphabet("0123456789abcdef", 16);
  nanoidAsNodeId: Effect.sync(() => nanoidForNodeId() as NodeId),
  \<close>
  In a regular expression without flags \<^verbatim>\<open>\w\<close> is the 63 characters below, \<^verbatim>\<open>{16}\<close>
  counts code units and \<^verbatim>\<open>^\<close>, \<^verbatim>\<open>$\<close> are the two ends of the string.
\<close>

definition word_characters :: js_string where
  "word_characters = js ''abcdefghijklmnopqrstuvwxyzABCDEFGHIJKLMNOPQRSTUVWXYZ0123456789_''"

definition NodeId_pattern :: "js_string \<Rightarrow> bool" where
  "NodeId_pattern s =
     (length s = 16 \<and> list_all (\<lambda>c. c \<in> set word_characters \<or> c = of_char CHR ''-'') s)"

text \<open>Decoding with the schema: the string itself, branded, when the pattern matches.\<close>

definition NodeId_decode :: "js_string \<Rightarrow> js_string option" where
  "NodeId_decode s = (if NodeId_pattern s then Some s else None)"

definition nanoidForNodeId :: "primitives \<Rightarrow> world \<Rightarrow> js_string \<times> world" where
  "nanoidForNodeId L = customAlphabet L (js ''0123456789abcdef'') 16"

definition nanoidAsNodeId :: "primitives \<Rightarrow> js_string effect" where
  "nanoidAsNodeId L = sync (\<lambda>w. let (id, w') = nanoidForNodeId L w in (Inr id, w'))"

text \<open>The format of the specification, \<^verbatim>\<open>^[0-9a-f]{16}$\<close>.\<close>

definition hex16 :: "js_string \<Rightarrow> bool" where
  "hex16 s = (length s = 16 \<and> list_all (\<lambda>c. c \<in> set (js ''0123456789abcdef'')) s)"

text \<open>
  What \<^verbatim>\<open>nanoid\<close> documents of \<^verbatim>\<open>customAlphabet(alphabet, size)\<close> for an alphabet of
  \<^verbatim>\<open>2^k\<close> characters (\<^verbatim>\<open>1 <= k <= 8\<close>): it takes bytes from the random source and turns
  a byte \<^verbatim>\<open>b\<close> into the character \<^verbatim>\<open>alphabet[b & (2^k - 1)]\<close>. The identifier is
  \<^verbatim>\<open>size\<close> such characters, each from a byte of its own among the bytes that the call
  takes from the source, which were handed out to nobody before.
\<close>

definition customAlphabet_draws :: "primitives \<Rightarrow> bool" where
  "customAlphabet_draws L =
     (\<forall>a n w k. 0 < k \<longrightarrow> k \<le> 8 \<longrightarrow> length a = 2 ^ k \<longrightarrow>
        (\<exists>ps. length ps = n \<and> distinct ps
              \<and> set ps \<subseteq> {consumed w ..< consumed (snd (customAlphabet L a n w))}
              \<and> entropy (snd (customAlphabet L a n w)) = entropy w
              \<and> fst (customAlphabet L a n w) =
                  map (\<lambda>p. a ! unat (entropy w p AND of_nat (length a - 1))) ps))"

section \<open>An instance of the primitives\<close>

text \<open>
  A small executable instance of the imported primitives, on which the model runs on
  concrete inputs. The encoder is UTF-8 as the platform's \<^verbatim>\<open>TextEncoder\<close> produces it
  (a lone surrogate becomes U+FFFD). The keyed functions are simple stand-ins with the
  sizes and argument checks of the real ones, not the real algorithms: a 64-byte
  digest, and a box that is a 16-byte tag followed by the plaintext masked with a pad.
\<close>

definition utf8_unit :: "code_unit \<Rightarrow> bytes" where
  "utf8_unit c =
     (if c < 0x80 then [ucast c]
      else if c < 0x800 then [0xC0 OR ucast (drop_bit 6 c), 0x80 OR ucast (c AND 0x3F)]
      else if 0xD800 \<le> c \<and> c \<le> 0xDFFF then [0xEF, 0xBF, 0xBD]
      else [0xE0 OR ucast (drop_bit 12 c), 0x80 OR ucast (drop_bit 6 c AND 0x3F),
            0x80 OR ucast (c AND 0x3F)])"

definition utf8_pair :: "code_unit \<Rightarrow> code_unit \<Rightarrow> bytes" where
  "utf8_pair hi lo =
     (let cp = (0x10000 :: 32 word) + push_bit 10 (ucast hi - 0xD800) + (ucast lo - 0xDC00)
      in [0xF0 OR ucast (drop_bit 18 cp), 0x80 OR ucast (drop_bit 12 cp AND 0x3F),
          0x80 OR ucast (drop_bit 6 cp AND 0x3F), 0x80 OR ucast (cp AND 0x3F)])"

fun utf8_encode :: "js_string \<Rightarrow> bytes" where
  "utf8_encode [] = []"
| "utf8_encode [c] = utf8_unit c"
| "utf8_encode (c # d # cs) =
     (if 0xD800 \<le> c \<and> c \<le> 0xDBFF \<and> 0xDC00 \<le> d \<and> d \<le> 0xDFFF
      then utf8_pair c d @ utf8_encode cs
      else utf8_unit c @ utf8_encode (d # cs))"

fun input_bytes :: "hmac_input \<Rightarrow> bytes" where
  "input_bytes (Str s) = utf8_encode s"
| "input_bytes (Bytes b) = b"

definition demo_hmac :: "hmac_input \<Rightarrow> hmac_input \<Rightarrow> bytes" where
  "demo_hmac k d =
     map (\<lambda>i. foldl (\<lambda>acc b. acc * 31 + b + of_nat i) (of_nat i) (input_bytes k @ 255 # input_bytes d))
       [0..<64]"

definition demo_pad :: "bytes \<Rightarrow> bytes \<Rightarrow> nat \<Rightarrow> bytes" where
  "demo_pad k n len = map (\<lambda>i. k ! (i mod 32) XOR n ! (i mod 24) XOR of_nat i) [0..<len]"

definition demo_tag :: "bytes \<Rightarrow> bytes \<Rightarrow> bytes \<Rightarrow> bytes" where
  "demo_tag k n c = (let s = foldl (+) 0 (k @ n @ c) in map (\<lambda>i. s + of_nat i) [0..<16])"

definition demo_seal :: "bytes \<Rightarrow> bytes \<Rightarrow> bytes \<Rightarrow> js_error + bytes" where
  "demo_seal k n p =
     (if length k \<noteq> 32 then Inl (Error ''invalid key length'')
      else if length n \<noteq> 24 then Inl (Error ''invalid nonce length'')
      else (let c = map2 (XOR) p (demo_pad k n (length p)) in Inr (demo_tag k n c @ c)))"

definition demo_open :: "bytes \<Rightarrow> bytes \<Rightarrow> bytes \<Rightarrow> js_error + bytes" where
  "demo_open k n box =
     (if length k \<noteq> 32 then Inl (Error ''invalid key length'')
      else if length n \<noteq> 24 then Inl (Error ''invalid nonce length'')
      else if length box < 16 then Inl (Error ''encrypted data should be at least 16 bytes'')
      else (let c = drop 16 box
            in if take 16 box \<noteq> demo_tag k n c then Inl (Error ''invalid tag'')
               else Inr (map2 (XOR) c (demo_pad k n (length c)))))"

definition demo_customAlphabet :: "js_string \<Rightarrow> nat \<Rightarrow> world \<Rightarrow> js_string \<times> world" where
  "demo_customAlphabet a n w =
     (let (bs, w') = randomBytes n w
      in (map (\<lambda>b. a ! unat (b AND of_nat (length a - 1))) bs, w'))"

definition demo :: primitives where
  "demo = \<lparr>hmac_sha512 = demo_hmac, TextEncoder_encode = utf8_encode,
           secretbox_seal = demo_seal, secretbox_open = demo_open,
           customAlphabet = demo_customAlphabet\<rparr>"

text \<open>A random source that counts up from 7, another one, and a 32-byte key.\<close>

definition demo_world :: world where
  "demo_world = \<lparr>entropy = (\<lambda>i. of_nat (i + 7)), consumed = 0\<rparr>"

definition demo_world2 :: world where
  "demo_world2 = \<lparr>entropy = (\<lambda>i. of_nat (3 * i)), consumed = 5\<rparr>"

definition demo_key :: bytes where
  "demo_key = map of_nat [100..<132]"

section \<open>The same operations on a heap of buffers\<close>

text \<open>
  For the question which arrays an operation writes, arrays are no longer values: the
  heap is the list of the buffers allocated so far, and a \<^verbatim>\<open>Uint8Array\<close> is a view on
  one of them (\<^verbatim>\<open>buffer\<close>, \<^verbatim>\<open>byteOffset\<close>, \<^verbatim>\<open>byteLength\<close>). \<^verbatim>\<open>new Uint8Array(n)\<close> and
  \<^verbatim>\<open>slice\<close> allocate, \<^verbatim>\<open>subarray\<close> makes a view on the same buffer, \<^verbatim>\<open>a[i] = v\<close> and
  \<^verbatim>\<open>a.set\<close> write into the buffer of \<^verbatim>\<open>a\<close>. A call of an imported primitive
  (\<^verbatim>\<open>hmac\<close>, \<^verbatim>\<open>TextEncoder.encode\<close>, \<^verbatim>\<open>randomBytes\<close>, \<^verbatim>\<open>secretbox\<close>, \<^verbatim>\<open>concatBytes\<close>) reads
  the bytes of its arguments and returns its result in a buffer of its own, as these
  libraries document.
\<close>

type_synonym heap = "bytes list"

record view =
  buffer :: nat
  byteOffset :: nat
  byteLength :: nat

definition view_bytes :: "heap \<Rightarrow> view \<Rightarrow> bytes" where
  "view_bytes h v = take (byteLength v) (drop (byteOffset v) (h ! buffer v))"

definition alloc :: "bytes \<Rightarrow> heap \<Rightarrow> view \<times> heap" where
  "alloc bs h = (\<lparr>buffer = length h, byteOffset = 0, byteLength = length bs\<rparr>, h @ [bs])"

definition heap_store_index :: "view \<Rightarrow> nat \<Rightarrow> byte \<Rightarrow> heap \<Rightarrow> heap" where
  "heap_store_index v i b h =
     (if i < byteLength v then h[buffer v := (h ! buffer v)[byteOffset v + i := b]] else h)"

definition heap_set :: "view \<Rightarrow> view \<Rightarrow> nat \<Rightarrow> heap \<Rightarrow> js_error + heap" where
  "heap_set target src offset h =
     (let s = view_bytes h src
      in if offset + length s > byteLength target then Inl (RangeError ''offset is out of bounds'')
         else (let old = h ! buffer target; at = byteOffset target + offset
               in Inr (h[buffer target := take at old @ s @ drop (at + length s) old])))"

definition heap_slice :: "view \<Rightarrow> nat \<Rightarrow> nat \<Rightarrow> heap \<Rightarrow> view \<times> heap" where
  "heap_slice v start end h = alloc (slice (view_bytes h v) start end) h"

definition heap_subarray :: "view \<Rightarrow> nat \<Rightarrow> nat \<Rightarrow> view" where
  "heap_subarray v begin end =
     (let len = byteLength v; b = min begin len; final = min end len
      in \<lparr>buffer = buffer v, byteOffset = byteOffset v + b, byteLength = final - b\<rparr>)"

text \<open>The loop of \<^verbatim>\<open>slip21Derive\<close>, statement by statement, on the heap.\<close>

function slip21_loop_heap ::
  "primitives \<Rightarrow> js_string list \<Rightarrow> nat \<Rightarrow> view \<Rightarrow> heap \<Rightarrow> (js_error + view) \<times> heap" where
  "slip21_loop_heap L path i m h =
     (if i < length path then
        (let (p, h1) = alloc (TextEncoder_encode L (path ! i)) h;
             (e, h2) = alloc (Uint8Array_new (byteLength p + 1)) h1;
             h3 = heap_store_index e 0 0 h2
         in case heap_set e p 1 h3 of
              Inl err \<Rightarrow> (Inl err, h3)
            | Inr h4 \<Rightarrow>
                (let (k, h5) = heap_slice m 0 32 h4;
                     (m', h6) = alloc (hmac_sha512 L (Bytes (view_bytes h5 k)) (Bytes (view_bytes h5 e))) h5
                 in slip21_loop_heap L path (i + 1) m' h6))
      else (Inr m, h))"
  by pat_completeness auto
termination
  by (relation "measure (\<lambda>(L, path, i, m, h). length path - i)") auto

declare slip21_loop_heap.simps [simp del]

definition slip21_heap :: "primitives \<Rightarrow> view \<Rightarrow> js_string list \<Rightarrow> heap \<Rightarrow> (js_error + view) \<times> heap" where
  "slip21_heap L seed path h =
     (let (m, h1) = alloc (hmac_sha512 L (Str (js ''Symmetric key seed'')) (Bytes (view_bytes h seed))) h
      in case slip21_loop_heap L path 0 m h1 of
           (Inl err, h2) \<Rightarrow> (Inl err, h2)
         | (Inr m', h2) \<Rightarrow> (let (r, h3) = heap_slice m' 32 64 h2 in (Inr r, h3)))"

definition seal_heap ::
  "primitives \<Rightarrow> view \<Rightarrow> view \<Rightarrow> heap \<Rightarrow> world \<Rightarrow> (js_error + view) \<times> heap \<times> world" where
  "seal_heap L key plaintext h w =
     (let (bs, w') = randomBytes 24 w;
          (nonce, h1) = alloc bs h
      in case secretbox_seal L (view_bytes h1 key) (view_bytes h1 nonce) (view_bytes h1 plaintext) of
           Inl err \<Rightarrow> (Inl err, h1, w')
         | Inr c \<Rightarrow>
             (let (ciphertext, h2) = alloc c h1;
                  (out, h3) = alloc (concatBytes (view_bytes h2 nonce) (view_bytes h2 ciphertext)) h2
              in (Inr out, h3, w')))"

definition open_heap :: "primitives \<Rightarrow> view \<Rightarrow> view \<Rightarrow> heap \<Rightarrow> (js_error + view) \<times> heap" where
  "open_heap L key ciphertext h =
     (let nonce = heap_subarray ciphertext 0 24;
          ciphertextWithoutNonce = heap_subarray ciphertext 24 (byteLength ciphertext)
      in case secretbox_open L (view_bytes h key) (view_bytes h nonce)
                (view_bytes h ciphertextWithoutNonce) of
           Inl err \<Rightarrow> (Inl err, h)
         | Inr p \<Rightarrow> (let (out, h1) = alloc p h in (Inr out, h1)))"

definition valid_view :: "heap \<Rightarrow> view \<Rightarrow> bool" where
  "valid_view h v = (buffer v < length h \<and> byteOffset v + byteLength v \<le> length (h ! buffer v))"

text \<open>
  The frame of a call that takes the heap \<open>h\<close> to \<open>h'\<close> and returns \<open>r\<close>: every buffer of
  \<open>h\<close> is in \<open>h'\<close> with the same bytes, and a returned array lies in a buffer allocated
  by the call.
\<close>

definition frame :: "heap \<Rightarrow> heap \<Rightarrow> (js_error + view) \<Rightarrow> bool" where
  "frame h h' r =
     (take (length h) h' = h \<and>
      (case r of Inl err \<Rightarrow> True | Inr v \<Rightarrow> length h \<le> buffer v \<and> buffer v < length h'))"

text \<open>A heap with a seed, a key and a third buffer, for running the model.\<close>

definition demo_heap :: heap where
  "demo_heap = [[1, 2, 3], demo_key, [9, 9, 1, 2, 3, 9]]"

section \<open>Lemmas on typed arrays\<close>

lemma slice_take_drop: "start \<le> end \<Longrightarrow> slice a start end = take (end - start) (drop start a)"
  by (auto simp: slice_def Let_def min_def)

lemma label_buffer:
  "Uint8Array_set (store_index (Uint8Array_new (length p + 1)) 0 0) p 1 = Inr (0 # p)"
  by (simp add: Uint8Array_set_def store_index_def Uint8Array_new_def)

section \<open>SLIP-21: the loop computes the specified fold\<close>

lemma slip21_loop_foldl:
  "i \<le> length path \<Longrightarrow>
   slip21_loop L path i m = Inr (foldl (slip21_step L) m (drop i path))"
proof (induction L path i m rule: slip21_loop.induct)
  case (1 L path i m)
  show ?case
  proof (cases "i < length path")
    case True
    let ?e = "0 # TextEncoder_encode L (path ! i)"
    let ?m' = "hmac_sha512 L (Bytes (slice m 0 32)) (Bytes ?e)"
    have step: "slip21_loop L path i m = slip21_loop L path (i + 1) ?m'"
      by (subst slip21_loop.simps) (simp only: True if_True Let_def label_buffer sum.case)
    have ih: "slip21_loop L path (i + 1) ?m' = Inr (foldl (slip21_step L) ?m' (drop (i + 1) path))"
      using "1.IH" [OF True refl refl refl label_buffer] True by simp
    have "drop i path = path ! i # drop (i + 1) path"
      using True by (simp add: Cons_nth_drop_Suc)
    moreover have "slip21_step L m (path ! i) = ?m'"
      by (simp add: slip21_step_def slice_take_drop)
    ultimately show ?thesis
      using step ih by simp
  next
    case False
    with "1.prems" show ?thesis
      by (subst slip21_loop.simps) simp
  qed
qed

lemma slip21_thunk_spec: "slip21_thunk L seed path = Inr (slip21_spec L seed path)"
  by (simp add: slip21_thunk_def slip21_spec_def slip21_root_def slip21_loop_foldl slice_take_drop)

section \<open>The instance meets the documented promises\<close>

lemma demo_hmac_64: "hmac_digest_64 demo"
  by (simp add: hmac_digest_64_def demo_def demo_hmac_def)

lemma xor_pad_cancel:
  "length pad = length p \<Longrightarrow> map2 (XOR) (map2 (XOR) p pad) pad = (p :: bytes)"
  by (induction p pad rule: list_induct2') (simp_all add: xor.assoc)

lemma demo_tag_length: "length (demo_tag k n c) = 16"
  by (simp add: demo_tag_def Let_def)

lemma demo_pad_length: "length (demo_pad k n len) = len"
  by (simp add: demo_pad_def)

lemma demo_open_seal:
  assumes "length k = 32" "length n = 24"
  shows "\<exists>c. demo_seal k n p = Inr c \<and> length c = length p + 16 \<and> demo_open k n c = Inr p"
proof -
  let ?c = "map2 (XOR) p (demo_pad k n (length p))"
  have len: "length ?c = length p"
    by (simp add: demo_pad_length)
  have seal: "demo_seal k n p = Inr (demo_tag k n ?c @ ?c)"
    using assms by (simp add: demo_seal_def Let_def)
  have "demo_open k n (demo_tag k n ?c @ ?c) = Inr (map2 (XOR) ?c (demo_pad k n (length ?c)))"
    using assms by (simp add: demo_open_def Let_def demo_tag_length)
  also have "map2 (XOR) ?c (demo_pad k n (length ?c)) = p"
    unfolding len by (rule xor_pad_cancel) (simp add: demo_pad_length)
  finally show ?thesis
    using seal len by (simp add: demo_tag_length)
qed

lemma demo_secretbox_correct: "secretbox_correct demo"
  unfolding secretbox_correct_def using demo_open_seal by (simp add: demo_def)

lemma demo_checks_lengths: "secretbox_checks_lengths demo"
  by (auto simp: secretbox_checks_lengths_def demo_def demo_open_def)

lemma demo_customAlphabet_draws: "customAlphabet_draws demo"
  unfolding customAlphabet_draws_def
proof (intro allI impI)
  fix a :: js_string and n and w :: world and k :: nat
  let ?ps = "[consumed w ..< consumed w + n]"
  have "fst (customAlphabet demo a n w) =
          map (\<lambda>p. a ! unat (entropy w p AND of_nat (length a - 1))) ?ps"
    by (simp add: demo_def demo_customAlphabet_def randomBytes_def comp_def)
  moreover have "snd (customAlphabet demo a n w) = w\<lparr>consumed := consumed w + n\<rparr>"
    by (simp add: demo_def demo_customAlphabet_def randomBytes_def)
  ultimately show "\<exists>ps. length ps = n \<and> distinct ps
      \<and> set ps \<subseteq> {consumed w ..< consumed (snd (customAlphabet demo a n w))}
      \<and> entropy (snd (customAlphabet demo a n w)) = entropy w
      \<and> fst (customAlphabet demo a n w) =
          map (\<lambda>p. a ! unat (entropy w p AND of_nat (length a - 1))) ps"
    by (intro exI [of _ ?ps]) simp
qed

lemma demo_key_length: "length demo_key = 32"
  by (simp add: demo_key_def)

section \<open>SLIP-21: the result\<close>

lemma sync_pure:
  "sync (\<lambda>w. (r, w)) w = (case r of Inl err \<Rightarrow> Die err | Inr a \<Rightarrow> Success a, w)"
  by (simp add: sync_def split: sum.splits)

lemma slip21Derive_run: "slip21Derive L seed path w = (Success (slip21_spec L seed path), w)"
  by (simp add: slip21Derive_def sync_pure slip21_thunk_spec)

lemma slip21_chain_length:
  "hmac_digest_64 L \<Longrightarrow> length (foldl (slip21_step L) (slip21_root L seed) path) = 64"
  by (induction path rule: rev_induct)
    (simp_all add: hmac_digest_64_def slip21_step_def slip21_root_def)

text \<open>
  C1. For every seed and every path, \<^verbatim>\<open>slip21Derive\<close> succeeds with the upper half
  \<^verbatim>\<open>m[32:64]\<close> of the chain that starts at
  \<^verbatim>\<open>m = HMAC-SHA512(key = "Symmetric key seed", data = seed)\<close> and, for each label in
  path order, continues with \<^verbatim>\<open>m = HMAC-SHA512(key = m[0:32], data = 0x00 || utf8(label))\<close>.
  With 64-byte digests the result has 32 bytes. For the empty path it is the upper half
  of the root expansion.
\<close>

theorem slip21Derive_algorithm:
  assumes "hmac_digest_64 L"
  shows "slip21Derive L seed path w =
           (Success (take 32 (drop 32
              (foldl (\<lambda>m label. hmac_sha512 L (Bytes (take 32 m)) (Bytes (0 # TextEncoder_encode L label)))
                 (hmac_sha512 L (Str (js ''Symmetric key seed'')) (Bytes seed)) path))), w)
         \<and> slip21Derive L seed path w = (Success (slip21_spec L seed path), w)
         \<and> length (slip21_spec L seed path) = 32
         \<and> slip21Derive L seed [] w =
             (Success (take 32 (drop 32 (hmac_sha512 L (Str (js ''Symmetric key seed'')) (Bytes seed)))), w)"
proof -
  have unfolded: "slip21_spec L seed path =
      take 32 (drop 32
        (foldl (\<lambda>m label. hmac_sha512 L (Bytes (take 32 m)) (Bytes (0 # TextEncoder_encode L label)))
           (hmac_sha512 L (Str (js ''Symmetric key seed'')) (Bytes seed)) path))"
    unfolding slip21_spec_def slip21_root_def
    by (rule arg_cong [where f = "\<lambda>f. take 32 (drop 32 (foldl f _ path))"])
      (simp add: fun_eq_iff slip21_step_def)
  have len: "length (slip21_spec L seed path) = 32"
    using slip21_chain_length [OF assms, of seed path] by (simp add: slip21_spec_def)
  have empty: "slip21_spec L seed [] =
      take 32 (drop 32 (hmac_sha512 L (Str (js ''Symmetric key seed'')) (Bytes seed)))"
    by (simp add: slip21_spec_def slip21_root_def)
  show ?thesis
    using unfolded len empty slip21Derive_run [of L seed path w] slip21Derive_run [of L seed "[]" w]
    by simp
qed

lemma demo_slip21_value:
  "slip21_spec demo [1, 2, 3] [js ''SLIP-0021''] =
     [219, 155, 91, 27, 219, 155, 91, 27, 219, 155, 91, 27, 219, 155, 91, 27,
      219, 155, 91, 27, 219, 155, 91, 27, 219, 155, 91, 27, 219, 155, 91, 27]"
  by code_simp

theorem slip21Derive_algorithm_witness:
  "hmac_digest_64 demo
   \<and> slip21Derive demo [1, 2, 3] [js ''SLIP-0021''] demo_world =
       (Success [219, 155, 91, 27, 219, 155, 91, 27, 219, 155, 91, 27, 219, 155, 91, 27,
                 219, 155, 91, 27, 219, 155, 91, 27, 219, 155, 91, 27, 219, 155, 91, 27],
        demo_world)
   \<and> length (slip21_spec demo [1, 2, 3] [js ''SLIP-0021'']) = 32"
proof -
  note run = slip21Derive_algorithm [OF demo_hmac_64, of "[1, 2, 3]" "[js ''SLIP-0021'']" demo_world]
  have "slip21Derive demo [1, 2, 3] [js ''SLIP-0021''] demo_world =
          (Success (slip21_spec demo [1, 2, 3] [js ''SLIP-0021'']), demo_world)"
    using run by (elim conjE)
  moreover have "length (slip21_spec demo [1, 2, 3] [js ''SLIP-0021'']) = 32"
    using run by (elim conjE)
  ultimately show ?thesis
    using demo_hmac_64 by (simp only: demo_slip21_value simp_thms)
qed

text \<open>
  C9. For every seed and path, any two runs of \<^verbatim>\<open>slip21Derive\<close> on them, whatever the
  state of the random source in each, succeed with one and the same 32-byte value, and
  each leaves the random source as it found it: the derivation draws no randomness.
\<close>

theorem slip21Derive_deterministic:
  assumes "hmac_digest_64 L"
  shows "\<exists>sub. length sub = 32
           \<and> (\<forall>w1 w2. slip21Derive L seed path w1 = (Success sub, w1)
                    \<and> slip21Derive L seed path w2 = (Success sub, w2))"
proof -
  have "length (slip21_spec L seed path) = 32"
    using slip21_chain_length [OF assms, of seed path] by (simp add: slip21_spec_def)
  then show ?thesis
    by (intro exI [of _ "slip21_spec L seed path"]) (simp add: slip21Derive_run)
qed

lemma demo_slip21_value2:
  "slip21_spec demo [4, 5, 6] [js ''a'', js ''b''] =
     [161, 225, 33, 97, 161, 225, 33, 97, 161, 225, 33, 97, 161, 225, 33, 97,
      161, 225, 33, 97, 161, 225, 33, 97, 161, 225, 33, 97, 161, 225, 33, 97]"
  by code_simp

theorem slip21Derive_deterministic_witness:
  "hmac_digest_64 demo
   \<and> slip21Derive demo [4, 5, 6] [js ''a'', js ''b''] demo_world =
       (Success [161, 225, 33, 97, 161, 225, 33, 97, 161, 225, 33, 97, 161, 225, 33, 97,
                 161, 225, 33, 97, 161, 225, 33, 97, 161, 225, 33, 97, 161, 225, 33, 97],
        demo_world)
   \<and> slip21Derive demo [4, 5, 6] [js ''a'', js ''b''] demo_world2 =
       (Success [161, 225, 33, 97, 161, 225, 33, 97, 161, 225, 33, 97, 161, 225, 33, 97,
                 161, 225, 33, 97, 161, 225, 33, 97, 161, 225, 33, 97, 161, 225, 33, 97],
        demo_world2)"
proof -
  from slip21Derive_deterministic [OF demo_hmac_64, of "[4, 5, 6]" "[js ''a'', js ''b'']"]
  obtain sub where
    both: "slip21Derive demo [4, 5, 6] [js ''a'', js ''b''] demo_world = (Success sub, demo_world)"
      "slip21Derive demo [4, 5, 6] [js ''a'', js ''b''] demo_world2 = (Success sub, demo_world2)"
    by blast
  from both(1) have "sub = slip21_spec demo [4, 5, 6] [js ''a'', js ''b'']"
    by (simp add: slip21Derive_run)
  then have "sub = [161, 225, 33, 97, 161, 225, 33, 97, 161, 225, 33, 97, 161, 225, 33, 97,
                    161, 225, 33, 97, 161, 225, 33, 97, 161, 225, 33, 97, 161, 225, 33, 97]"
    by (simp only: demo_slip21_value2)
  with both show ?thesis
    using demo_hmac_64 by (simp only: simp_thms)
qed

section \<open>SecretBox: sealing and opening\<close>

lemma randomBytes_length: "length (fst (randomBytes n w)) = n"
  by (simp add: randomBytes_def)

lemma subarray_prefix: "subarray c 0 n = take n c"
  by (simp add: subarray_def Let_def min_def)

lemma subarray_from_drop: "subarray_from c n = drop n c"
  by (simp add: subarray_from_def subarray_def Let_def min_def)

lemma open_run:
  "SecretBoxLive_open L K c w =
     (case secretbox_open L K (take 24 c) (drop 24 c) of Inl err \<Rightarrow> Die err | Inr p \<Rightarrow> Success p, w)"
  by (simp add: SecretBoxLive_open_def sync_pure subarray_prefix subarray_from_drop)

lemma seal_run:
  "SecretBoxLive_seal L K P w =
     (case secretbox_seal L K (fst (randomBytes 24 w)) P of
        Inl err \<Rightarrow> Die err
      | Inr c \<Rightarrow> Success (fst (randomBytes 24 w) @ c),
      snd (randomBytes 24 w))"
  by (simp add: SecretBoxLive_seal_def sync_def concatBytes_def split_beta split: sum.splits)

text \<open>
  C5. For a 32-byte key, \<^verbatim>\<open>seal\<close> returns \<^verbatim>\<open>nonce || c\<close>: the nonce is the next 24
  bytes of the random source, drawn by this call, and \<^verbatim>\<open>c\<close> is what the secretbox
  primitive returns for the key, that nonce and the plaintext, 16 bytes longer than the
  plaintext. So the output has \<^verbatim>\<open>len(P) + 40\<close> bytes, at least 40, and its first 24
  bytes are the nonce.
\<close>

theorem seal_layout:
  assumes "length K = 32" and "secretbox_correct L"
  shows "\<exists>nonce c out w'.
           SecretBoxLive_seal L K P w = (Success out, w')
           \<and> out = nonce @ c
           \<and> nonce = map (entropy w) [consumed w ..< consumed w + 24]
           \<and> consumed w' = consumed w + 24 \<and> entropy w' = entropy w
           \<and> secretbox_seal L K nonce P = Inr c
           \<and> length nonce = 24 \<and> length c = length P + 16
           \<and> length out = length P + 40 \<and> 40 \<le> length out
           \<and> take 24 out = nonce"
proof -
  let ?nonce = "fst (randomBytes 24 w)"
  have n24: "length ?nonce = 24"
    by (rule randomBytes_length)
  from assms n24 obtain c where c: "secretbox_seal L K ?nonce P = Inr c" "length c = length P + 16"
    unfolding secretbox_correct_def by blast
  have "SecretBoxLive_seal L K P w = (Success (?nonce @ c), snd (randomBytes 24 w))"
    using c by (simp add: seal_run)
  moreover have "?nonce = map (entropy w) [consumed w ..< consumed w + 24]"
    by (simp add: randomBytes_def)
  moreover have "consumed (snd (randomBytes 24 w)) = consumed w + 24"
    "entropy (snd (randomBytes 24 w)) = entropy w"
    by (simp_all add: randomBytes_def)
  ultimately show ?thesis
    using c n24 by (intro exI [of _ ?nonce] exI [of _ c] exI [of _ "?nonce @ c"]
        exI [of _ "snd (randomBytes 24 w)"]) simp
qed

lemma demo_seal_value:
  "SecretBoxLive_seal demo demo_key [1, 2, 3] demo_world =
     (Success
       [7, 8, 9, 10, 11, 12, 13, 14, 15, 16, 17, 18, 19, 20, 21, 22,
        23, 24, 25, 26, 27, 28, 29, 30, 106, 107, 108, 109, 110, 111, 112, 113,
        114, 115, 116, 117, 118, 119, 120, 121, 98, 110, 110],
      demo_world\<lparr>consumed := 24\<rparr>)"
  by (simp add: seal_run randomBytes_def demo_world_def demo_def demo_seal_def demo_key_def
      demo_pad_def demo_tag_def Let_def upt_rec)

theorem seal_layout_witness:
  "length demo_key = 32 \<and> secretbox_correct demo
   \<and> (\<exists>nonce c. fst (SecretBoxLive_seal demo demo_key [1, 2, 3] demo_world) = Success (nonce @ c)
         \<and> nonce = map (entropy demo_world) [0..<24]
         \<and> secretbox_seal demo demo_key nonce [1, 2, 3] = Inr c
         \<and> length nonce = 24 \<and> length c = 19)
   \<and> fst (SecretBoxLive_seal demo demo_key [1, 2, 3] demo_world) =
       Success
       [7, 8, 9, 10, 11, 12, 13, 14, 15, 16, 17, 18, 19, 20, 21, 22,
        23, 24, 25, 26, 27, 28, 29, 30, 106, 107, 108, 109, 110, 111, 112, 113,
        114, 115, 116, 117, 118, 119, 120, 121, 98, 110, 110]"
proof -
  from seal_layout [OF demo_key_length demo_secretbox_correct, of "[1, 2, 3]" demo_world]
  obtain nonce c out w' where
    "SecretBoxLive_seal demo demo_key [1, 2, 3] demo_world = (Success out, w')"
    "out = nonce @ c" "nonce = map (entropy demo_world) [consumed demo_world ..< consumed demo_world + 24]"
    "secretbox_seal demo demo_key nonce [1, 2, 3] = Inr c" "length nonce = 24"
    "length c = length [1, 2, 3 :: byte] + 16"
    by blast
  then have "\<exists>nonce c. fst (SecretBoxLive_seal demo demo_key [1, 2, 3] demo_world) = Success (nonce @ c)
         \<and> nonce = map (entropy demo_world) [0..<24]
         \<and> secretbox_seal demo demo_key nonce [1, 2, 3] = Inr c
         \<and> length nonce = 24 \<and> length c = 19"
    by (intro exI [of _ nonce] exI [of _ c]) (simp add: demo_world_def)
  then show ?thesis
    using demo_key_length demo_secretbox_correct demo_seal_value by simp
qed

text \<open>
  C2. Round trip: for a 32-byte key \<^verbatim>\<open>K\<close> and any plaintext \<^verbatim>\<open>P\<close>, \<^verbatim>\<open>seal\<close> succeeds
  whatever nonce the random source supplies, and \<^verbatim>\<open>open\<close> under \<^verbatim>\<open>K\<close> of what it
  returned succeeds with exactly \<^verbatim>\<open>P\<close>.
\<close>

theorem seal_open_roundtrip:
  assumes "length K = 32" and "secretbox_correct L"
  shows "\<exists>sealed. fst (SecretBoxLive_seal L K P w) = Success sealed
           \<and> fst (SecretBoxLive_open L K sealed w2) = Success P"
proof -
  let ?nonce = "fst (randomBytes 24 w)"
  have n24: "length ?nonce = 24"
    by (rule randomBytes_length)
  from assms n24 obtain c where
    c: "secretbox_seal L K ?nonce P = Inr c" "secretbox_open L K ?nonce c = Inr P"
    unfolding secretbox_correct_def by blast
  have "fst (SecretBoxLive_seal L K P w) = Success (?nonce @ c)"
    using c by (simp add: seal_run)
  moreover have "fst (SecretBoxLive_open L K (?nonce @ c) w2) = Success P"
    using c n24 by (simp add: open_run)
  ultimately show ?thesis
    by blast
qed

lemma demo_open_value:
  "SecretBoxLive_open demo demo_key
       [7, 8, 9, 10, 11, 12, 13, 14, 15, 16, 17, 18, 19, 20, 21, 22,
        23, 24, 25, 26, 27, 28, 29, 30, 106, 107, 108, 109, 110, 111, 112, 113,
        114, 115, 116, 117, 118, 119, 120, 121, 98, 110, 110]
     demo_world = (Success [1, 2, 3], demo_world)"
  by (simp add: open_run demo_def demo_open_def demo_key_def demo_pad_def demo_tag_def Let_def
      upt_rec)

theorem seal_open_roundtrip_witness:
  "length demo_key = 32 \<and> secretbox_correct demo
   \<and> (\<exists>sealed. fst (SecretBoxLive_seal demo demo_key [1, 2, 3] demo_world) = Success sealed
         \<and> fst (SecretBoxLive_open demo demo_key sealed demo_world) = Success [1, 2, 3])
   \<and> fst (SecretBoxLive_open demo demo_key
       [7, 8, 9, 10, 11, 12, 13, 14, 15, 16, 17, 18, 19, 20, 21, 22,
        23, 24, 25, 26, 27, 28, 29, 30, 106, 107, 108, 109, 110, 111, 112, 113,
        114, 115, 116, 117, 118, 119, 120, 121, 98, 110, 110]
       demo_world) = Success [1, 2, 3]"
  using seal_open_roundtrip [OF demo_key_length demo_secretbox_correct, of "[1, 2, 3]" demo_world demo_world]
    demo_key_length demo_secretbox_correct demo_open_value
  by simp

text \<open>
  C3, as stated: \<^verbatim>\<open>open\<close> reports a tag that does not verify as a distinct
  decryption error kind of its own. It does not. On a sealed message whose last byte was
  changed, the primitive throws, and the outcome of \<^verbatim>\<open>open\<close> is a defect carrying that
  exception, not a failure of a declared error kind: \<^verbatim>\<open>open\<close> is an
  \<^verbatim>\<open>Effect.Effect<Uint8Array>\<close> built with \<^verbatim>\<open>Effect.sync\<close>, with no error type.
\<close>

theorem open_error_kind_counterexample:
  "secretbox_open demo demo_key
       (take 24 [7, 8, 9, 10, 11, 12, 13, 14, 15, 16, 17, 18, 19, 20, 21, 22,
        23, 24, 25, 26, 27, 28, 29, 30, 106, 107, 108, 109, 110, 111, 112, 113,
        114, 115, 116, 117, 118, 119, 120, 121, 98, 110, 111])
       (drop 24 [7, 8, 9, 10, 11, 12, 13, 14, 15, 16, 17, 18, 19, 20, 21, 22,
        23, 24, 25, 26, 27, 28, 29, 30, 106, 107, 108, 109, 110, 111, 112, 113,
        114, 115, 116, 117, 118, 119, 120, 121, 98, 110, 111]) = Inl (Error ''invalid tag'')
   \<and> fst (SecretBoxLive_open demo demo_key
       [7, 8, 9, 10, 11, 12, 13, 14, 15, 16, 17, 18, 19, 20, 21, 22,
        23, 24, 25, 26, 27, 28, 29, 30, 106, 107, 108, 109, 110, 111, 112, 113,
        114, 115, 116, 117, 118, 119, 120, 121, 98, 110, 111]
       demo_world) = Die (Error ''invalid tag'')
   \<and> \<not> is_Failure (fst (SecretBoxLive_open demo demo_key
       [7, 8, 9, 10, 11, 12, 13, 14, 15, 16, 17, 18, 19, 20, 21, 22,
        23, 24, 25, 26, 27, 28, 29, 30, 106, 107, 108, 109, 110, 111, 112, 113,
        114, 115, 116, 117, 118, 119, 120, 121, 98, 110, 111]
       demo_world))"
  by (simp add: open_run demo_def demo_open_def demo_key_def demo_tag_def Let_def upt_rec)

text \<open>
  C3, amended. For every key and every byte sequence \<^verbatim>\<open>c\<close>, \<^verbatim>\<open>open\<close> takes
  \<^verbatim>\<open>nonce = c[0:24]\<close> and \<^verbatim>\<open>body = c[24:]\<close> and attempts authenticated decryption with
  the secretbox primitive. It fails when \<^verbatim>\<open>len(c) < 40\<close>, through the primitive's length
  checks (a nonce of 24 bytes, a box of at least 16). Whenever the primitive rejects, as
  it does when the tag does not verify, \<^verbatim>\<open>open\<close> fails with the primitive's exception,
  passed on unchanged as a defect and not as an error kind of its own. It never returns
  partial or garbage plaintext: it succeeds only with the plaintext the primitive
  returned.
\<close>

theorem open_outcome:
  assumes "secretbox_checks_lengths L"
  shows "SecretBoxLive_open L K c w =
           (case secretbox_open L K (take 24 c) (drop 24 c) of
              Inl err \<Rightarrow> Die err
            | Inr p \<Rightarrow> Success p, w)
         \<and> (length c < 40 \<longrightarrow> is_Die (fst (SecretBoxLive_open L K c w)))
         \<and> \<not> is_Failure (fst (SecretBoxLive_open L K c w))"
proof -
  have short: "isl (secretbox_open L K (take 24 c) (drop 24 c))" if "length c < 40"
  proof -
    have "length (take 24 c) \<noteq> 24 \<or> length (drop 24 c) < 16"
      using that by (cases "length c < 24") auto
    then show ?thesis
      using assms unfolding secretbox_checks_lengths_def by blast
  qed
  show ?thesis
    using short by (auto simp: open_run isl_def split: sum.splits)
qed

theorem open_outcome_witness:
  "secretbox_checks_lengths demo
   \<and> length ([7, 8, 9, 10, 11, 12, 13, 14, 15, 16, 17, 18, 19, 20, 21, 22,
        23, 24, 25, 26, 27, 28, 29, 30, 1, 2, 3, 4, 5, 6] :: bytes) < 40
   \<and> is_Die (fst (SecretBoxLive_open demo demo_key
       [7, 8, 9, 10, 11, 12, 13, 14, 15, 16, 17, 18, 19, 20, 21, 22,
        23, 24, 25, 26, 27, 28, 29, 30, 1, 2, 3, 4, 5, 6]
       demo_world))
   \<and> SecretBoxLive_open demo demo_key
       [7, 8, 9, 10, 11, 12, 13, 14, 15, 16, 17, 18, 19, 20, 21, 22,
        23, 24, 25, 26, 27, 28, 29, 30, 1, 2, 3, 4, 5, 6]
       demo_world = (Die (Error ''encrypted data should be at least 16 bytes''), demo_world)"
proof -
  note run = open_outcome [OF demo_checks_lengths, of demo_key
      "[7, 8, 9, 10, 11, 12, 13, 14, 15, 16, 17, 18, 19, 20, 21, 22,
        23, 24, 25, 26, 27, 28, 29, 30, 1, 2, 3, 4, 5, 6]" demo_world]
  have short: "length ([7, 8, 9, 10, 11, 12, 13, 14, 15, 16, 17, 18, 19, 20, 21, 22,
        23, 24, 25, 26, 27, 28, 29, 30, 1, 2, 3, 4, 5, 6] :: bytes) < 40"
    by simp
  from run short have "is_Die (fst (SecretBoxLive_open demo demo_key
       [7, 8, 9, 10, 11, 12, 13, 14, 15, 16, 17, 18, 19, 20, 21, 22,
        23, 24, 25, 26, 27, 28, 29, 30, 1, 2, 3, 4, 5, 6]
       demo_world))"
    by blast
  moreover have "SecretBoxLive_open demo demo_key
       [7, 8, 9, 10, 11, 12, 13, 14, 15, 16, 17, 18, 19, 20, 21, 22,
        23, 24, 25, 26, 27, 28, 29, 30, 1, 2, 3, 4, 5, 6]
       demo_world = (Die (Error ''encrypted data should be at least 16 bytes''), demo_world)"
    by (simp add: open_run demo_def demo_open_def demo_key_def)
  ultimately show ?thesis
    using demo_checks_lengths short by blast
qed

section \<open>NodeId\<close>

text \<open>
  C4, as stated: every value the \<^verbatim>\<open>NodeId\<close> schema admits matches \<^verbatim>\<open>^[0-9a-f]{16}$\<close>.
  The schema's pattern is \<^verbatim>\<open>^[\w-]{16}$\<close>: it admits sixteen capital Z, which is not
  lowercase hex.
\<close>

theorem NodeId_hex_counterexample:
  "NodeId_decode (js ''ZZZZZZZZZZZZZZZZ'') = Some (js ''ZZZZZZZZZZZZZZZZ'')
   \<and> \<not> hex16 (js ''ZZZZZZZZZZZZZZZZ'')"
  by (simp add: NodeId_decode_def NodeId_pattern_def hex16_def js_def word_characters_def)

lemma hex_is_word_character:
  "c \<in> set (js ''0123456789abcdef'') \<Longrightarrow> c \<in> set word_characters"
  by (auto simp: js_def word_characters_def)

lemma hex16_matches_pattern: "hex16 s \<Longrightarrow> NodeId_pattern s"
  using hex_is_word_character by (auto simp: hex16_def NodeId_pattern_def list_all_iff)

text \<open>
  C4, amended. A value admitted by the \<^verbatim>\<open>NodeId\<close> schema is the decoded string itself,
  of exactly 16 code units, each a letter, a digit, an underscore or a hyphen; every such
  string is admitted. Every string that matches \<^verbatim>\<open>^[0-9a-f]{16}$\<close> is admitted, and so
  are strings that do not.
\<close>

theorem NodeId_admits:
  "(NodeId_decode s = Some v \<longleftrightarrow>
      v = s \<and> length s = 16 \<and> (\<forall>c \<in> set s. c \<in> set word_characters \<or> c = of_char CHR ''-''))
   \<and> (hex16 s \<longrightarrow> NodeId_decode s = Some s)"
  using hex16_matches_pattern [of s]
  by (auto simp: NodeId_decode_def NodeId_pattern_def list_all_iff)

theorem NodeId_admits_witness:
  "hex16 (js ''0123456789abcdef'')
   \<and> NodeId_decode (js ''0123456789abcdef'') = Some (js ''0123456789abcdef'')
   \<and> length (js ''0123456789abcdef'') = 16
   \<and> list_all (\<lambda>c. c \<in> set word_characters \<or> c = of_char CHR ''-'') (js ''0123456789abcdef'')"
proof -
  have hex: "hex16 (js ''0123456789abcdef'')"
    by (simp add: hex16_def js_def)
  note admits = NodeId_admits [of "js ''0123456789abcdef''" "js ''0123456789abcdef''"]
  from admits hex have dec: "NodeId_decode (js ''0123456789abcdef'') = Some (js ''0123456789abcdef'')"
    by blast
  with admits have "length (js ''0123456789abcdef'') = 16
      \<and> (\<forall>c \<in> set (js ''0123456789abcdef''). c \<in> set word_characters \<or> c = of_char CHR ''-'')"
    by blast
  with hex dec show ?thesis
    unfolding list_all_iff by blast
qed

lemma low_nibble_mod: "unat ((b :: byte) AND 15) = unat b mod 16"
proof -
  have "(15 :: byte) = mask 4"
    by (simp add: mask_eq_exp_minus_1)
  then have "b AND 15 = take_bit 4 b"
    by (simp add: take_bit_eq_mask)
  then show ?thesis
    by (simp add: take_bit_eq_mod unat_mod)
qed

lemma unat_byte_of_nat: "n < 256 \<Longrightarrow> unat (of_nat n :: byte) = n"
  by (simp add: unat_of_nat)

lemma bytes_of_nibble:
  assumes "i < 16"
  shows "{b :: byte. unat (b AND 15) = i} = (\<lambda>j. of_nat (i + 16 * j)) ` {..<16}"
proof (intro set_eqI iffI)
  fix b :: byte
  assume "b \<in> {b. unat (b AND 15) = i}"
  then have m: "unat b mod 16 = i"
    by (simp add: low_nibble_mod)
  have lt: "unat b < 256"
    using unsigned_less [of b] by simp
  have "unat b = i + 16 * (unat b div 16)"
    using m by (metis mult_div_mod_eq add.commute)
  then have "unat b = unat (of_nat (i + 16 * (unat b div 16)) :: byte)"
    using lt by (simp add: unat_byte_of_nat)
  then have "b = of_nat (i + 16 * (unat b div 16))"
    by (simp add: word_unat_eq_iff)
  moreover have "unat b div 16 < 16"
    using lt by simp
  ultimately show "b \<in> (\<lambda>j. of_nat (i + 16 * j)) ` {..<16}"
    by blast
next
  fix b :: byte
  assume "b \<in> (\<lambda>j. of_nat (i + 16 * j)) ` {..<16}"
  then obtain j where j: "j < 16" "b = of_nat (i + 16 * j)"
    by auto
  with assms have "i + 16 * j < 256"
    by simp
  then have "unat b = i + 16 * j"
    unfolding j(2) by (rule unat_byte_of_nat)
  with assms show "b \<in> {b. unat (b AND 15) = i}"
    by (simp add: low_nibble_mod)
qed

lemma card_bytes_of_nibble:
  assumes "i < 16"
  shows "card {b :: byte. unat (b AND 15) = i} = 16"
proof -
  have "inj_on (\<lambda>j. of_nat (i + 16 * j) :: byte) {..<16}"
  proof (rule inj_onI)
    fix j j' :: nat
    assume a: "j \<in> {..<16}" "j' \<in> {..<16}"
      and e: "(of_nat (i + 16 * j) :: byte) = of_nat (i + 16 * j')"
    from a assms have "i + 16 * j < 256" "i + 16 * j' < 256"
      by simp_all
    then have "i + 16 * j = i + 16 * j'"
      using e by (metis unat_byte_of_nat)
    then show "j = j'"
      by simp
  qed
  then show ?thesis
    by (simp add: bytes_of_nibble [OF assms] card_image)
qed

lemma hex_distinct: "distinct (js ''0123456789abcdef'')"
  by (simp add: js_def)

lemma hex_draw_uniform:
  assumes "c \<in> set (js ''0123456789abcdef'')"
  shows "card {b :: byte. js ''0123456789abcdef'' ! unat (b AND 15) = c} = 16"
proof -
  let ?a = "js ''0123456789abcdef''"
  have len: "length ?a = 16"
    by (simp add: js_def)
  from assms obtain i where i: "i < 16" "?a ! i = c"
    using len by (metis in_set_conv_nth)
  have "unat (b AND 15) < 16" for b :: byte
    by (simp add: low_nibble_mod)
  then have "(?a ! unat (b AND 15) = c) = (unat (b AND 15) = i)" for b :: byte
    using i len hex_distinct by (metis nth_eq_iff_index_eq)
  then show ?thesis
    using card_bytes_of_nibble [OF i(1)] by simp
qed

text \<open>
  C6. Every identifier that \<^verbatim>\<open>nanoidAsNodeId\<close> produces matches \<^verbatim>\<open>^[0-9a-f]{16}$\<close> (and
  so is a value the \<^verbatim>\<open>NodeId\<close> schema admits). It is what
  \<^verbatim>\<open>customAlphabet("0123456789abcdef", 16)\<close> returns: 16 characters, each read from a
  byte of its own among the bytes this call takes from the random source, through
  \<^verbatim>\<open>alphabet[b & 15]\<close>, under which every one of the 16 characters is the image of exactly
  16 of the 256 byte values.
\<close>

theorem nanoidAsNodeId_format:
  assumes "customAlphabet_draws L"
  shows "\<exists>id w' ps.
           nanoidAsNodeId L w = (Success id, w')
           \<and> customAlphabet L (js ''0123456789abcdef'') 16 w = (id, w')
           \<and> hex16 id \<and> NodeId_decode id = Some id
           \<and> length ps = 16 \<and> distinct ps \<and> set ps \<subseteq> {consumed w ..< consumed w'}
           \<and> entropy w' = entropy w
           \<and> id = map (\<lambda>p. js ''0123456789abcdef'' ! unat (entropy w p AND 15)) ps
           \<and> (\<forall>c \<in> set (js ''0123456789abcdef'').
                 card {b :: byte. js ''0123456789abcdef'' ! unat (b AND 15) = c} = 16)"
proof -
  let ?a = "js ''0123456789abcdef''"
  let ?id = "fst (customAlphabet L ?a 16 w)"
  let ?w' = "snd (customAlphabet L ?a 16 w)"
  have len: "length ?a = 2 ^ 4" "length ?a = 16"
    by (simp_all add: js_def)
  from assms [unfolded customAlphabet_draws_def, rule_format, of 4 ?a 16 w] len(1)
  obtain ps where ps: "length ps = 16" "distinct ps" "set ps \<subseteq> {consumed w ..< consumed ?w'}"
    "entropy ?w' = entropy w"
    "?id = map (\<lambda>p. ?a ! unat (entropy w p AND of_nat (length ?a - 1))) ps"
    by auto
  have id: "?id = map (\<lambda>p. ?a ! unat (entropy w p AND 15)) ps"
    using ps(5) by (simp only: len(2)) simp
  have "unat (b AND 15) < length ?a" for b :: byte
    by (simp add: low_nibble_mod len(2))
  then have "set ?id \<subseteq> set ?a"
    unfolding id by (auto simp: nth_mem)
  moreover have "length ?id = 16"
    unfolding id by (simp add: ps(1))
  ultimately have hex: "hex16 ?id"
    by (auto simp: hex16_def list_all_iff)
  have run: "nanoidAsNodeId L w = (Success ?id, ?w')"
    by (simp add: nanoidAsNodeId_def nanoidForNodeId_def sync_def split_beta)
  have dec: "NodeId_decode ?id = Some ?id"
    using hex16_matches_pattern [OF hex] by (simp add: NodeId_decode_def)
  show ?thesis
  proof (intro exI [of _ ?id] exI [of _ ?w'] exI [of _ ps] conjI ballI)
    show "nanoidAsNodeId L w = (Success ?id, ?w')"
      by (rule run)
    show "customAlphabet L ?a 16 w = (?id, ?w')"
      by simp
    show "hex16 ?id"
      by (rule hex)
    show "NodeId_decode ?id = Some ?id"
      by (rule dec)
    show "length ps = 16" "distinct ps" "set ps \<subseteq> {consumed w ..< consumed ?w'}"
      "entropy ?w' = entropy w"
      by (rule ps)+
    show "?id = map (\<lambda>p. ?a ! unat (entropy w p AND 15)) ps"
      by (rule id)
    show "card {b :: byte. ?a ! unat (b AND 15) = c} = 16" if "c \<in> set ?a" for c
      using that by (rule hex_draw_uniform)
  qed
qed

lemma demo_nodeId_value:
  "nanoidAsNodeId demo demo_world2 =
     (Success (js ''f258be147ad0369c''), demo_world2\<lparr>consumed := 21\<rparr>)"
  by (simp add: nanoidAsNodeId_def nanoidForNodeId_def sync_def demo_def demo_customAlphabet_def
      randomBytes_def demo_world2_def js_def upt_rec)

lemma demo_nodeId_draws:
  "js ''f258be147ad0369c'' =
     map (\<lambda>p. js ''0123456789abcdef'' ! unat (entropy demo_world2 p AND 15)) [5..<21]"
  by (simp add: demo_world2_def js_def upt_rec)

theorem nanoidAsNodeId_format_witness:
  "customAlphabet_draws demo
   \<and> nanoidAsNodeId demo demo_world2 =
       (Success (js ''f258be147ad0369c''), demo_world2\<lparr>consumed := 21\<rparr>)
   \<and> hex16 (js ''f258be147ad0369c'')
   \<and> NodeId_decode (js ''f258be147ad0369c'') = Some (js ''f258be147ad0369c'')
   \<and> js ''f258be147ad0369c'' =
       map (\<lambda>p. js ''0123456789abcdef'' ! unat (entropy demo_world2 p AND 15)) [5..<21]"
proof -
  from nanoidAsNodeId_format [OF demo_customAlphabet_draws, of demo_world2]
  obtain id w' where run: "nanoidAsNodeId demo demo_world2 = (Success id, w')" "hex16 id"
    "NodeId_decode id = Some id"
    by blast
  from run(1) have "id = js ''f258be147ad0369c''"
    by (simp add: demo_nodeId_value)
  with run(2,3) show ?thesis
    using demo_customAlphabet_draws demo_nodeId_value demo_nodeId_draws by blast
qed

section \<open>The heap: which buffers a call writes\<close>

lemma view_bytes_alloc:
  "view_bytes (h @ bs # hs) \<lparr>buffer = length h, byteOffset = 0, byteLength = length bs\<rparr> = bs"
  by (simp add: view_bytes_def)

lemma view_bytes_fresh:
  "buffer v = length h \<Longrightarrow> byteOffset v = 0 \<Longrightarrow> byteLength v = length bs \<Longrightarrow>
   view_bytes (h @ bs # hs) v = bs"
  by (simp add: view_bytes_def)

lemma view_bytes_append: "buffer v < length h \<Longrightarrow> view_bytes (h @ hs) v = view_bytes h v"
  by (simp add: view_bytes_def nth_append)

lemma slip21_loop_heap_step:
  assumes "i < length path" and "buffer m < length h"
  shows "slip21_loop_heap L path i m h =
         slip21_loop_heap L path (i + 1)
           \<lparr>buffer = length h + 3, byteOffset = 0,
            byteLength = length (slip21_step L (view_bytes h m) (path ! i))\<rparr>
           (h @ [TextEncoder_encode L (path ! i), 0 # TextEncoder_encode L (path ! i),
                 slice (view_bytes h m) 0 32, slip21_step L (view_bytes h m) (path ! i)])"
proof -
  let ?p = "TextEncoder_encode L (path ! i)"
  let ?pv = "\<lparr>buffer = length h, byteOffset = 0, byteLength = length ?p\<rparr>"
  let ?ev = "\<lparr>buffer = length h + 1, byteOffset = 0, byteLength = length ?p + 1\<rparr>"
  let ?h2 = "(h @ [?p]) @ [Uint8Array_new (length ?p + 1)]"
  have a1: "alloc ?p h = (?pv, h @ [?p])"
    by (simp add: alloc_def)
  have a2: "alloc (Uint8Array_new (byteLength ?pv + 1)) (h @ [?p]) = (?ev, ?h2)"
    by (simp add: alloc_def Uint8Array_new_def)
  have s3: "heap_store_index ?ev 0 0 ?h2 = ?h2"
    by (simp add: heap_store_index_def Uint8Array_new_def nth_append list_update_append)
  have s4: "heap_set ?ev ?pv 1 ?h2 = Inr (h @ [?p, 0 # ?p])"
    by (simp add: heap_set_def view_bytes_def Uint8Array_new_def nth_append list_update_append Let_def)
  have mv: "view_bytes (h @ [?p, 0 # ?p]) m = view_bytes h m"
    using assms(2) by (rule view_bytes_append)
  have a5: "heap_slice m 0 32 (h @ [?p, 0 # ?p]) =
      (\<lparr>buffer = length h + 2, byteOffset = 0, byteLength = length (slice (view_bytes h m) 0 32)\<rparr>,
       h @ [?p, 0 # ?p, slice (view_bytes h m) 0 32])"
    by (simp add: heap_slice_def alloc_def mv)
  let ?h5 = "h @ [?p, 0 # ?p, slice (view_bytes h m) 0 32]"
  have kv: "view_bytes ?h5 \<lparr>buffer = length h + 2, byteOffset = 0, byteLength = length (slice (view_bytes h m) 0 32)\<rparr> = slice (view_bytes h m) 0 32"
    by (simp add: view_bytes_def nth_append)
  have ev: "view_bytes ?h5 ?ev = 0 # ?p"
    by (simp add: view_bytes_def nth_append)
  have st: "slip21_step L (view_bytes h m) (path ! i) = hmac_sha512 L (Bytes (slice (view_bytes h m) 0 32)) (Bytes (0 # ?p))"
    by (simp add: slip21_step_def slice_take_drop)
  show ?thesis
    apply (subst slip21_loop_heap.simps)
    apply (simp only: assms(1) if_True Let_def a1 a2 s3 s4 a5 kv ev prod.case sum.case st [symmetric])
    apply (simp add: alloc_def numeral_3_eq_3)
    done
qed

lemma slip21_loop_heap_result:
  "buffer m < length h \<Longrightarrow> i \<le> length path \<Longrightarrow>
   \<exists>v hs. slip21_loop_heap L path i m h = (Inr v, h @ hs) \<and> buffer v < length (h @ hs) \<and>
     view_bytes (h @ hs) v = foldl (slip21_step L) (view_bytes h m) (drop i path)"
proof (induction "length path - i" arbitrary: i m h)
  case 0
  then have "slip21_loop_heap L path i m h = (Inr m, h @ [])"
    by (subst slip21_loop_heap.simps) simp
  with 0 show ?case
    by (intro exI [of _ m] exI [of _ "[]"]) simp
next
  case (Suc n)
  then have lt: "i < length path" by simp
  let ?m' = "\<lparr>buffer = length h + 3, byteOffset = 0,
            byteLength = length (slip21_step L (view_bytes h m) (path ! i))\<rparr>"
  let ?new = "[TextEncoder_encode L (path ! i), 0 # TextEncoder_encode L (path ! i),
                 slice (view_bytes h m) 0 32, slip21_step L (view_bytes h m) (path ! i)]"
  have n: "n = length path - (i + 1)" using Suc.hyps(2) by simp
  have bm: "buffer ?m' < length (h @ ?new)" by simp
  have le: "i + 1 \<le> length path" using lt by simp
  from Suc.hyps(1) [OF n bm le] obtain v hs where
    r: "slip21_loop_heap L path (i + 1) ?m' (h @ ?new) = (Inr v, (h @ ?new) @ hs)"
       "buffer v < length ((h @ ?new) @ hs)"
       "view_bytes ((h @ ?new) @ hs) v = foldl (slip21_step L) (view_bytes (h @ ?new) ?m') (drop (i + 1) path)"
    by (elim exE conjE)
  have m': "view_bytes (h @ ?new) ?m' = slip21_step L (view_bytes h m) (path ! i)"
    by (simp add: view_bytes_def nth_append)
  have d: "drop i path = path ! i # drop (i + 1) path"
    using lt by (simp add: Cons_nth_drop_Suc)
  have run: "slip21_loop_heap L path i m h = (Inr v, h @ (?new @ hs))"
    using r(1) by (simp only: slip21_loop_heap_step [OF lt Suc.prems(1), of L] append_assoc)
  have "foldl (slip21_step L) (view_bytes h m) (drop i path) =
      foldl (slip21_step L) (slip21_step L (view_bytes h m) (path ! i)) (drop (i + 1) path)"
    by (subst d) simp
  then have bytes: "view_bytes (h @ (?new @ hs)) v = foldl (slip21_step L) (view_bytes h m) (drop i path)"
    using r(3) by (simp only: m' append_assoc)
  have "buffer v < length (h @ (?new @ hs))"
    using r(2) by (simp only: append_assoc)
  with run bytes show ?case
    by (intro exI [of _ v] exI [of _ "?new @ hs"] conjI)
qed

lemma slip21_heap_result:
  "\<exists>v hs. slip21_heap L seed path h = (Inr v, h @ hs) \<and> length h \<le> buffer v
      \<and> buffer v < length (h @ hs)
      \<and> view_bytes (h @ hs) v = slip21_spec L (view_bytes h seed) path"
proof -
  let ?root = "slip21_root L (view_bytes h seed)"
  let ?m = "\<lparr>buffer = length h, byteOffset = 0, byteLength = length ?root\<rparr>"
  have "buffer ?m < length (h @ [?root])" by simp
  from slip21_loop_heap_result [OF this, of 0 path L] obtain v hs where
    r: "slip21_loop_heap L path 0 ?m (h @ [?root]) = (Inr v, (h @ [?root]) @ hs)"
       "view_bytes ((h @ [?root]) @ hs) v = foldl (slip21_step L) (view_bytes (h @ [?root]) ?m) (drop 0 path)"
    by auto
  let ?chain = "foldl (slip21_step L) ?root path"
  have chain: "view_bytes (h @ ?root # hs) v = ?chain"
    using r(2) by (simp add: view_bytes_alloc)
  let ?out = "\<lparr>buffer = length h + 1 + length hs, byteOffset = 0, byteLength = length (slice ?chain 32 64)\<rparr>"
  have run: "slip21_heap L seed path h = (Inr ?out, h @ (?root # hs @ [slice ?chain 32 64]))"
    using r(1) chain
    by (simp add: slip21_heap_def slip21_root_def alloc_def heap_slice_def)
  have "view_bytes ((h @ ?root # hs) @ slice ?chain 32 64 # []) ?out = slice ?chain 32 64"
    by (rule view_bytes_fresh) simp_all
  then have "view_bytes (h @ (?root # hs @ [slice ?chain 32 64])) ?out = slip21_spec L (view_bytes h seed) path"
    by (simp add: slip21_spec_def slice_take_drop)
  with run show ?thesis
    by (intro exI [of _ ?out] exI [of _ "?root # hs @ [slice ?chain 32 64]"]) simp
qed

lemma slip21_heap_frame: "frame h (snd (slip21_heap L seed path h)) (fst (slip21_heap L seed path h))"
  using slip21_heap_result [of L seed path h] by (auto simp: frame_def)

lemma seal_heap_frame:
  "frame h (fst (snd (seal_heap L key plaintext h w))) (fst (seal_heap L key plaintext h w))"
  by (simp add: seal_heap_def frame_def alloc_def split_beta Let_def split: sum.splits)

lemma open_heap_frame:
  "frame h (snd (open_heap L key ciphertext h)) (fst (open_heap L key ciphertext h))"
  by (simp add: open_heap_def frame_def alloc_def split_beta Let_def split: sum.splits)

lemma frame_view: "frame h h' r \<Longrightarrow> buffer v < length h \<Longrightarrow> view_bytes h' v = view_bytes h v"
proof -
  assume f: "frame h h' r" and v: "buffer v < length h"
  then have "h' ! buffer v = take (length h) h' ! buffer v"
    by simp
  with f show ?thesis
    by (simp add: frame_def view_bytes_def)
qed

lemma view_subarray_prefix: "view_bytes h (heap_subarray c 0 n) = subarray (view_bytes h c) 0 n"
  by (simp add: view_bytes_def heap_subarray_def subarray_def Let_def min_def)

lemma view_subarray_from:
  assumes "valid_view h c"
  shows "view_bytes h (heap_subarray c n (byteLength c)) = subarray_from (view_bytes h c) n"
proof -
  have len: "length (view_bytes h c) = byteLength c"
    using assms by (auto simp: valid_view_def view_bytes_def)
  show ?thesis
    unfolding subarray_from_def subarray_def len Let_def
    by (simp add: view_bytes_def heap_subarray_def Let_def drop_take add.commute)
qed

lemma slip21_heap_refines:
  "\<exists>v h'. slip21_heap L seed path h = (Inr v, h')
      \<and> slip21Derive L (view_bytes h seed) path w = (Success (view_bytes h' v), w)"
  using slip21_heap_result [of L seed path h] by (auto simp: slip21Derive_run)

lemma seal_heap_refines:
  assumes "buffer key < length h" and "buffer plaintext < length h"
  shows "case seal_heap L key plaintext h w of
           (Inl err, h', w') \<Rightarrow>
             SecretBoxLive_seal L (view_bytes h key) (view_bytes h plaintext) w = (Die err, w')
         | (Inr out, h', w') \<Rightarrow>
             SecretBoxLive_seal L (view_bytes h key) (view_bytes h plaintext) w =
               (Success (view_bytes h' out), w')"
  using assms
  by (simp add: seal_heap_def seal_run alloc_def split_beta Let_def view_bytes_append
      concatBytes_def view_bytes_fresh [where hs = "[]"] view_bytes_def [of _ "\<lparr>buffer = _, byteOffset = _, byteLength = _\<rparr>"] nth_append
      split: sum.splits)

lemma open_heap_refines:
  assumes "valid_view h ciphertext"
  shows "case open_heap L key ciphertext h of
           (Inl err, h') \<Rightarrow>
             SecretBoxLive_open L (view_bytes h key) (view_bytes h ciphertext) w = (Die err, w)
         | (Inr out, h') \<Rightarrow>
             SecretBoxLive_open L (view_bytes h key) (view_bytes h ciphertext) w =
               (Success (view_bytes h' out), w)"
  using assms
  by (simp add: open_heap_def SecretBoxLive_open_def sync_pure alloc_def Let_def
      view_subarray_prefix view_subarray_from view_bytes_fresh [where hs = "[]"]
      split: sum.splits)

lemma frame_buffer: "frame h h' r \<Longrightarrow> a < length h \<Longrightarrow> h' ! a = h ! a"
proof -
  assume f: "frame h h' r" and a: "a < length h"
  then have "h' ! a = take (length h) h' ! a"
    by simp
  with f show ?thesis
    by (simp add: frame_def)
qed

text \<open>
  C10. \<^verbatim>\<open>slip21Derive\<close>, \<^verbatim>\<open>seal\<close> and \<^verbatim>\<open>open\<close> write to no array they are given: after
  the call every buffer that existed before it (the buffers of the seed, of the key, of
  the plaintext and of the ciphertext among them) holds the bytes it held, and an array
  that is returned lies in a buffer allocated during the call.
\<close>

theorem operations_keep_inputs:
  assumes "buffer a < length h"
  shows "snd (slip21_heap L seed path h) ! buffer a = h ! buffer a
         \<and> frame h (snd (slip21_heap L seed path h)) (fst (slip21_heap L seed path h))
         \<and> fst (snd (seal_heap L key plaintext h w)) ! buffer a = h ! buffer a
         \<and> frame h (fst (snd (seal_heap L key plaintext h w))) (fst (seal_heap L key plaintext h w))
         \<and> snd (open_heap L key ciphertext h) ! buffer a = h ! buffer a
         \<and> frame h (snd (open_heap L key ciphertext h)) (fst (open_heap L key ciphertext h))"
proof (intro conjI)
  show "snd (slip21_heap L seed path h) ! buffer a = h ! buffer a"
    using slip21_heap_frame assms by (rule frame_buffer)
  show "fst (snd (seal_heap L key plaintext h w)) ! buffer a = h ! buffer a"
    using seal_heap_frame assms by (rule frame_buffer)
  show "snd (open_heap L key ciphertext h) ! buffer a = h ! buffer a"
    using open_heap_frame assms by (rule frame_buffer)
qed (rule slip21_heap_frame seal_heap_frame open_heap_frame)+

theorem operations_keep_inputs_witness:
  "buffer \<lparr>buffer = 2, byteOffset = 2, byteLength = 3\<rparr> < length demo_heap
   \<and> snd (slip21_heap demo \<lparr>buffer = 2, byteOffset = 2, byteLength = 3\<rparr> [js ''SLIP-0021'']
          demo_heap) ! 2 = [9, 9, 1, 2, 3, 9]
   \<and> fst (snd (seal_heap demo \<lparr>buffer = 1, byteOffset = 0, byteLength = 32\<rparr>
          \<lparr>buffer = 2, byteOffset = 2, byteLength = 3\<rparr> demo_heap demo_world)) ! 2 = [9, 9, 1, 2, 3, 9]
   \<and> snd (open_heap demo \<lparr>buffer = 1, byteOffset = 0, byteLength = 32\<rparr>
          \<lparr>buffer = 2, byteOffset = 2, byteLength = 3\<rparr> demo_heap) ! 2 = [9, 9, 1, 2, 3, 9]"
proof -
  have here: "buffer \<lparr>buffer = 2, byteOffset = 2, byteLength = 3\<rparr> < length demo_heap"
    by (simp add: demo_heap_def)
  have bytes: "demo_heap ! 2 = [9, 9, 1, 2, 3, 9]"
    by (simp add: demo_heap_def)
  note kept = operations_keep_inputs [OF here, of demo
      "\<lparr>buffer = 2, byteOffset = 2, byteLength = 3\<rparr>" "[js ''SLIP-0021'']"
      "\<lparr>buffer = 1, byteOffset = 0, byteLength = 32\<rparr>"
      "\<lparr>buffer = 2, byteOffset = 2, byteLength = 3\<rparr>" demo_world
      "\<lparr>buffer = 2, byteOffset = 2, byteLength = 3\<rparr>"]
  show ?thesis
    using kept here by (simp add: bytes)
qed

end
